theory Spec2Isabelle
  imports Main
begin

section \<open>Rendering of numbers in template literals\<close>

text \<open>
  Template literals such as \<^verbatim>\<open>`${timeout}ms`\<close> render an integral number in
  decimal, with a leading minus sign when it is negative.
\<close>

definition digit_char :: "nat \<Rightarrow> char" where
  "digit_char d = ''0123456789'' ! d"

function show_nat :: "nat \<Rightarrow> string" where
  "show_nat n = (if n < 10 then [digit_char n] else show_nat (n div 10) @ [digit_char (n mod 10)])"
  by pat_completeness auto
termination
  by (relation "measure (\<lambda>n. n)") auto

declare show_nat.simps [simp del]

definition show_int :: "int \<Rightarrow> string" where
  "show_int i = (if i < 0 then CHR ''-'' # show_nat (nat (- i)) else show_nat (nat i))"

section \<open>The single-probe connector (utils/tcp.ts, tcpConnect)\<close>

text \<open>
  The value a probe resolves with: \<^verbatim>\<open>{ success, responseTime?, error? }\<close>.
  An absent field is \<open>None\<close>.
\<close>

record probe_outcome =
  success :: bool
  responseTime :: "int option"
  error :: "string option"

text \<open>
  \<^verbatim>\<open>tcpConnect\<close> registers three callbacks on one promise: the timer, the connect
  callback and the socket's error handler. The promise keeps the first resolution, so
  what the network contributes to one call is which callback runs first:
  the connect callback, with the difference of the two \<^verbatim>\<open>Date.now()\<close> readings,
  the error handler, with the error's message, or the timer.
\<close>

datatype first_event = Connected int | SocketError string | TimerFired

text \<open>
  Before any of this, \<^verbatim>\<open>socket.connect(port, host, ...)\<close> checks the port: Node's
  \<^verbatim>\<open>net\<close> module throws \<^verbatim>\<open>ERR_SOCKET_BAD_PORT\<close> for a port outside 0..65535. The
  throw happens inside the promise's executor, so the promise is rejected, and every
  \<^verbatim>\<open>await\<close> of it throws in turn, up to the \<^verbatim>\<open>try\<close>/\<^verbatim>\<open>catch\<close> around
  the tool call. A rejected promise is \<open>Inl\<close> of the exception.
\<close>

datatype exception = ERR_SOCKET_BAD_PORT int

text \<open>What the program does to the outside world, in order.\<close>

datatype io_event = Probe string int int | Sleep int

text \<open>
  The world: the network decides, for the position of the call in the trace and its
  target, which callback runs first; the trace records every connector call
  (host, port, timeout) and every wait between attempts.
\<close>

record world =
  network :: "nat \<Rightarrow> string \<Rightarrow> int \<Rightarrow> first_event"
  trace :: "io_event list"

definition resolve :: "int \<Rightarrow> first_event \<Rightarrow> probe_outcome" where
  "resolve timeout ev =
     (case ev of
        TimerFired \<Rightarrow>
          \<lparr>success = False, responseTime = None,
           error = Some (''Connection timeout after '' @ show_int timeout @ ''ms'')\<rparr>
      | Connected rt \<Rightarrow> \<lparr>success = True, responseTime = Some rt, error = None\<rparr>
      | SocketError msg \<Rightarrow> \<lparr>success = False, responseTime = None, error = Some msg\<rparr>)"

definition tcpConnect ::
  "world \<Rightarrow> string \<Rightarrow> int \<Rightarrow> int \<Rightarrow> (exception + probe_outcome) \<times> world" where
  "tcpConnect w host port timeout =
     ((if 0 \<le> port \<and> port \<le> 65535
       then Inr (resolve timeout (network w (length (trace w)) host port))
       else Inl (ERR_SOCKET_BAD_PORT port)),
      w\<lparr>trace := trace w @ [Probe host port timeout]\<rparr>)"

definition sleep :: "world \<Rightarrow> int \<Rightarrow> world" where
  "sleep w ms = w\<lparr>trace := trace w @ [Sleep ms]\<rparr>"

section \<open>The repeated-probe aggregator (utils/tcp.ts, tcping)\<close>

text \<open>
  The options object. \<^verbatim>\<open>host\<close> and \<^verbatim>\<open>port\<close> are required; an absent
  \<^verbatim>\<open>timeout\<close>, \<^verbatim>\<open>count\<close> or \<^verbatim>\<open>interval\<close> takes the default of the
  destructuring pattern (3000, 4, 1000). Numbers are integers here, as the tools'
  parameter contracts have them.
\<close>

record tcping_options =
  opt_host :: string
  opt_port :: int
  opt_timeout :: "int option"
  opt_count :: "int option"
  opt_interval :: "int option"

text \<open>
  The object \<^verbatim>\<open>tcping\<close> returns. Its field \<^verbatim>\<open>success\<close> is \<open>tp_success\<close> here, the
  name \<open>success\<close> being taken by the probe outcome.
\<close>

record tcping_result =
  host :: string
  port :: int
  tp_success :: bool
  attempts :: int
  successfulAttempts :: nat
  averageTime :: "int option"
  minTime :: "int option"
  maxTime :: "int option"
  results :: "probe_outcome list"

definition default_to :: "'a \<Rightarrow> 'a option \<Rightarrow> 'a" where
  "default_to d v = (case v of None \<Rightarrow> d | Some x \<Rightarrow> x)"

text \<open>
  The loop \<^verbatim>\<open>for (let i = 0; i < count; i++)\<close>: one connector call, the outcome
  pushed onto \<^verbatim>\<open>results\<close>, and a wait of \<^verbatim>\<open>interval\<close> unless this was the last
  attempt. A rejected connector call ends the loop with its exception.
\<close>

function tcping_loop ::
  "string \<Rightarrow> int \<Rightarrow> int \<Rightarrow> int \<Rightarrow> int \<Rightarrow> int \<Rightarrow> probe_outcome list \<Rightarrow> world
     \<Rightarrow> (exception + probe_outcome list) \<times> world" where
  "tcping_loop h p timeout cnt interval i acc w =
     (if i < cnt then
        (case tcpConnect w h p timeout of
           (Inl e, w1) \<Rightarrow> (Inl e, w1)
         | (Inr r, w1) \<Rightarrow>
             (let acc1 = acc @ [r];
                  w2 = (if i < cnt - 1 then sleep w1 interval else w1)
              in tcping_loop h p timeout cnt interval (i + 1) acc1 w2))
      else (Inr acc, w))"
  by pat_completeness auto
termination
  by (relation "measure (\<lambda>(h, p, timeout, cnt, interval, i, acc, w). nat (cnt - i))") auto

declare tcping_loop.simps [simp del]

text \<open>
  \<^verbatim>\<open>results.filter(r => r.responseTime)\<close> keeps the outcomes whose response time is
  truthy: present and not zero.
\<close>

definition truthy_number :: "int option \<Rightarrow> bool" where
  "truthy_number v = (case v of None \<Rightarrow> False | Some n \<Rightarrow> n \<noteq> 0)"

text \<open>
  \<^verbatim>\<open>xs.reduce(f)\<close> without an initial value folds from the first element and throws on
  an empty array (\<open>None\<close>). \<^verbatim>\<open>Math.min(...xs)\<close> and \<^verbatim>\<open>Math.max(...xs)\<close> of a
  non-empty array are the same fold with \<open>min\<close> and \<open>max\<close>.
\<close>

fun reduce :: "('a \<Rightarrow> 'a \<Rightarrow> 'a) \<Rightarrow> 'a list \<Rightarrow> 'a option" where
  "reduce f [] = None"
| "reduce f (x # xs) = Some (foldl f x xs)"

text \<open>
  \<^verbatim>\<open>Math.round(s / n)\<close> for a sum \<open>s\<close> and a positive length \<open>n\<close>: the integer
  nearest to the quotient, a tie going up, which is \<open>\<lfloor>s / n + 1 / 2\<rfloor>\<close>. The quotient is
  taken exactly; the rounding of the double-precision division is not modelled.
\<close>

definition round_quotient :: "int \<Rightarrow> int \<Rightarrow> int" where
  "round_quotient s n = (2 * s + n) div (2 * n)"

text \<open>The part of \<^verbatim>\<open>tcping\<close> after the loop: the result object built from \<^verbatim>\<open>results\<close>.\<close>

definition summarise :: "string \<Rightarrow> int \<Rightarrow> int \<Rightarrow> probe_outcome list \<Rightarrow> tcping_result" where
  "summarise h p cnt rs =
     (let ok = length (filter success rs);
          responseTimes = map (\<lambda>r. the (responseTime r)) (filter (\<lambda>r. truthy_number (responseTime r)) rs)
      in \<lparr>host = h, port = p, tp_success = (ok > 0), attempts = cnt, successfulAttempts = ok,
           averageTime =
             (if length responseTimes > 0
              then map_option (\<lambda>s. round_quotient s (int (length responseTimes))) (reduce (+) responseTimes)
              else None),
           minTime = (if length responseTimes > 0 then reduce min responseTimes else None),
           maxTime = (if length responseTimes > 0 then reduce max responseTimes else None),
           results = rs\<rparr>)"

definition tcping :: "world \<Rightarrow> tcping_options \<Rightarrow> (exception + tcping_result) \<times> world" where
  "tcping w options =
     (let h = opt_host options;
          p = opt_port options;
          timeout = default_to 3000 (opt_timeout options);
          cnt = default_to 4 (opt_count options);
          interval = default_to 1000 (opt_interval options)
      in case tcping_loop h p timeout cnt interval 0 [] w of
           (Inl e, w1) \<Rightarrow> (Inl e, w1)
         | (Inr rs, w1) \<Rightarrow> (Inr (summarise h p cnt rs), w1))"

section \<open>The tool handlers (index.ts)\<close>



definition show_optional :: "int option \<Rightarrow> string" where
  "show_optional v = (case v of Some t \<Rightarrow> show_int t | None \<Rightarrow> ''undefined'')"



text \<open>A firewall rule \<^verbatim>\<open>{ name, host, port, expected }\<close> and the record pushed for it.\<close>

record firewall_rule =
  rule_name :: string
  rule_host :: string
  rule_port :: int
  expected :: bool

record rule_result =
  res_name :: string
  res_host :: string
  res_port :: int
  res_expected :: bool
  actual :: bool
  passed :: bool
  res_responseTime :: "int option"
  res_error :: "string option"

text \<open>
  The check mark and the cross of the status line are outside ASCII; they are written as
  the bytes of their UTF-8 encoding.
\<close>

definition pass_mark :: string where
  "pass_mark = [CHR 0xE2, CHR 0x9C, CHR 0x85] @ '' PASS''"

definition fail_mark :: string where
  "fail_mark = [CHR 0xE2, CHR 0x9D, CHR 0x8C] @ '' FAIL''"

text \<open>One iteration of \<^verbatim>\<open>for (const rule of rules)\<close>: the text it appends and the record it pushes.\<close>

definition rule_text :: "firewall_rule \<Rightarrow> probe_outcome \<Rightarrow> string" where
  "rule_text rule result =
     (let status = (if success result = expected rule then pass_mark else fail_mark);
          actualResult = (if success result then ''CONNECTED'' else ''BLOCKED/FAILED'');
          expectedResult = (if expected rule then ''CONNECTED'' else ''BLOCKED'')
      in ''Rule: '' @ rule_name rule @ [CHR 0x0A]
         @ ''  Target: '' @ rule_host rule @ '':'' @ show_int (rule_port rule) @ [CHR 0x0A]
         @ ''  Expected: '' @ expectedResult @ [CHR 0x0A]
         @ ''  Actual: '' @ actualResult @ [CHR 0x0A]
         @ ''  Status: '' @ status @ [CHR 0x0A]
         @ (if success result \<and> truthy_number (responseTime result)
            then ''  Response Time: '' @ show_optional (responseTime result) @ ''ms'' @ [CHR 0x0A]
            else if \<not> success result \<and> error result \<noteq> None \<and> error result \<noteq> Some []
            then ''  Error: '' @ the (error result) @ [CHR 0x0A]
            else [])
         @ [CHR 0x0A])"

definition rule_record :: "firewall_rule \<Rightarrow> probe_outcome \<Rightarrow> rule_result" where
  "rule_record rule result =
     \<lparr>res_name = rule_name rule, res_host = rule_host rule, res_port = rule_port rule,
      res_expected = expected rule, actual = success result,
      passed = (success result = expected rule),
      res_responseTime = responseTime result, res_error = error result\<rparr>"

fun firewall_loop ::
  "int \<Rightarrow> firewall_rule list \<Rightarrow> rule_result list \<Rightarrow> string \<Rightarrow> world
     \<Rightarrow> (exception + rule_result list \<times> string) \<times> world" where
  "firewall_loop timeout [] acc output w = (Inr (acc, output), w)"
| "firewall_loop timeout (rule # rest) acc output w =
     (case tcpConnect w (rule_host rule) (rule_port rule) timeout of
        (Inl e, w1) \<Rightarrow> (Inl e, w1)
      | (Inr result, w1) \<Rightarrow>
          firewall_loop timeout rest (acc @ [rule_record rule result])
            (output @ rule_text rule result) w1)"

text \<open>
  The handler returns the text only; the model also returns the local array
  \<^verbatim>\<open>results\<close> the summary is computed from (and, for the scan below, the local
  array \<^verbatim>\<open>openPorts\<close>).
\<close>

definition handleFirewallValidation ::
  "world \<Rightarrow> firewall_rule list \<Rightarrow> int option
     \<Rightarrow> (exception + rule_result list \<times> string) \<times> world" where
  "handleFirewallValidation w rules timeout_arg =
     (let timeout = default_to 3000 timeout_arg;
          output0 = ''Firewall Rule Validation Results:'' @ [CHR 0x0A]
                    @ replicate 50 (CHR ''='') @ [CHR 0x0A, CHR 0x0A]
      in case firewall_loop timeout rules [] output0 w of
           (Inl e, w1) \<Rightarrow> (Inl e, w1)
         | (Inr (rs, output1), w1) \<Rightarrow>
             (let passedRules = length (filter passed rs)
              in (Inr (rs,
                       output1 @ ''Overall Result: '' @ show_nat passedRules @ ''/''
                         @ show_nat (length rs) @ '' rules passed'' @ [CHR 0x0A]),
                  w1)))"

text \<open>An entry of \<^verbatim>\<open>openPorts\<close>: \<^verbatim>\<open>{ port, responseTime }\<close>.\<close>

record open_port =
  op_port :: int
  op_responseTime :: "int option"

text \<open>The loop \<^verbatim>\<open>for (let port = startPort; port <= endPort; port++)\<close>.\<close>

function scan_loop ::
  "string \<Rightarrow> int \<Rightarrow> int \<Rightarrow> int \<Rightarrow> open_port list \<Rightarrow> string \<Rightarrow> world
     \<Rightarrow> (exception + open_port list \<times> string) \<times> world" where
  "scan_loop h endPort timeout p acc output w =
     (if p \<le> endPort then
        (case tcpConnect w h p timeout of
           (Inl e, w1) \<Rightarrow> (Inl e, w1)
         | (Inr result, w1) \<Rightarrow>
             if success result
             then scan_loop h endPort timeout (p + 1)
                    (acc @ [\<lparr>op_port = p, op_responseTime = responseTime result\<rparr>])
                    (output @ ''Port '' @ show_int p @ '': OPEN (''
                       @ show_optional (responseTime result) @ ''ms)'' @ [CHR 0x0A])
                    w1
             else scan_loop h endPort timeout (p + 1) acc output w1)
      else (Inr (acc, output), w))"
  by pat_completeness auto
termination
  by (relation "measure (\<lambda>(h, endPort, timeout, p, acc, output, w). nat (endPort + 1 - p))") auto

declare scan_loop.simps [simp del]

definition handleNetworkScan ::
  "world \<Rightarrow> string \<Rightarrow> int \<Rightarrow> int \<Rightarrow> int option
     \<Rightarrow> (exception + open_port list \<times> string) \<times> world" where
  "handleNetworkScan w h startPort endPort timeout_arg =
     (let timeout = default_to 1000 timeout_arg;
          output0 = ''Network Scan: '' @ h @ '':'' @ show_int startPort @ ''-'' @ show_int endPort
                    @ [CHR 0x0A] @ replicate 50 (CHR ''='') @ [CHR 0x0A, CHR 0x0A]
      in case scan_loop h endPort timeout startPort [] output0 w of
           (Inl e, w1) \<Rightarrow> (Inl e, w1)
         | (Inr (openPorts, output1), w1) \<Rightarrow>
             (Inr (openPorts,
                   (if length openPorts = 0
                    then output1 @ ''No open ports found in the specified range.'' @ [CHR 0x0A]
                    else output1 @ [CHR 0x0A] @ ''Summary: Found '' @ show_nat (length openPorts)
                         @ '' open ports'' @ [CHR 0x0A])),
              w1))"

section \<open>Regular expressions\<close>

text \<open>
  The validator tests the host against regular-expression literals. They use character
  classes, concatenation, alternation, \<^verbatim>\<open>*\<close> and bounded repetition only, and each is
  anchored with \<^verbatim>\<open>^\<close> and \<^verbatim>\<open>$\<close> (no flags), so \<^verbatim>\<open>test\<close> succeeds exactly when the
  whole string belongs to the language of the expression. A character class is a list of
  inclusive ranges.
\<close>

datatype rx = Fail | Eps | Cls "(char \<times> char) list" | Cat rx rx | Alt rx rx | Star rx

definition in_cls :: "(char \<times> char) list \<Rightarrow> char \<Rightarrow> bool" where
  "in_cls rs c = list_ex (\<lambda>(lo, hi). (of_char lo :: nat) \<le> of_char c \<and> (of_char c :: nat) \<le> of_char hi) rs"

definition lit :: "char \<Rightarrow> rx" where
  "lit c = Cls [(c, c)]"

fun seq :: "rx list \<Rightarrow> rx" where
  "seq [] = Eps"
| "seq [r] = r"
| "seq (r # rs) = Cat r (seq rs)"

fun alts :: "rx list \<Rightarrow> rx" where
  "alts [] = Fail"
| "alts [r] = r"
| "alts (r # rs) = Alt r (alts rs)"

text \<open>\<^verbatim>\<open>r{m,n}\<close>: between \<open>m\<close> and \<open>n\<close> copies of \<open>r\<close>.\<close>

fun rep :: "rx \<Rightarrow> nat \<Rightarrow> nat \<Rightarrow> rx" where
  "rep r 0 0 = Eps"
| "rep r 0 (Suc n) = Alt Eps (Cat r (rep r 0 n))"
| "rep r (Suc m) 0 = Fail"
| "rep r (Suc m) (Suc n) = Cat r (rep r m n)"

text \<open>\<^verbatim>\<open>r{m,}\<close>: at least \<open>m\<close> copies of \<open>r\<close>.\<close>

definition rep_min :: "rx \<Rightarrow> nat \<Rightarrow> rx" where
  "rep_min r m = Cat (rep r m m) (Star r)"

text \<open>The matcher: derivatives, with the empty language pruned as it appears.\<close>

fun nullable :: "rx \<Rightarrow> bool" where
  "nullable Fail = False"
| "nullable Eps = True"
| "nullable (Cls rs) = False"
| "nullable (Cat r s) = (nullable r \<and> nullable s)"
| "nullable (Alt r s) = (nullable r \<or> nullable s)"
| "nullable (Star r) = True"

fun cat :: "rx \<Rightarrow> rx \<Rightarrow> rx" where
  "cat Fail s = Fail"
| "cat Eps s = s"
| "cat r s = Cat r s"

fun alt :: "rx \<Rightarrow> rx \<Rightarrow> rx" where
  "alt Fail s = s"
| "alt r Fail = r"
| "alt r s = Alt r s"

fun deriv :: "char \<Rightarrow> rx \<Rightarrow> rx" where
  "deriv c Fail = Fail"
| "deriv c Eps = Fail"
| "deriv c (Cls rs) = (if in_cls rs c then Eps else Fail)"
| "deriv c (Cat r s) =
     (if nullable r then alt (cat (deriv c r) s) (deriv c s) else cat (deriv c r) s)"
| "deriv c (Alt r s) = alt (deriv c r) (deriv c s)"
| "deriv c (Star r) = cat (deriv c r) (Star r)"

fun matches :: "rx \<Rightarrow> string \<Rightarrow> bool" where
  "matches r [] = nullable r"
| "matches r (c # cs) = matches (deriv c r) cs"

section \<open>The input validator (utils/validators.ts)\<close>

text \<open>\<^verbatim>\<open>\d\<close>, \<^verbatim>\<open>\d{1,3}\<close>, \<^verbatim>\<open>\.\<close> and \<^verbatim>\<open>\d{1,3}\.\<close>.\<close>

definition digit :: rx where
  "digit = Cls [(CHR ''0'', CHR ''9'')]"

definition digits13 :: rx where
  "digits13 = rep digit 1 3"

definition dot :: rx where
  "dot = lit (CHR ''.'')"

definition digits13_dot :: rx where
  "digits13_dot = seq [digits13, dot]"

text \<open>\<^verbatim>\<open>/^(\d{1,3})\.(\d{1,3})\.(\d{1,3})\.(\d{1,3})$/\<close>\<close>

definition ipv4Pattern :: rx where
  "ipv4Pattern = seq [digits13, dot, digits13, dot, digits13, dot, digits13]"

text \<open>\<^verbatim>\<open>[0-9a-fA-F]\<close>, \<^verbatim>\<open>[0-9a-fA-F]{1,4}\<close>, \<^verbatim>\<open>:\<close>, \<^verbatim>\<open>[0-9a-fA-F]{1,4}:\<close> and \<^verbatim>\<open>:[0-9a-fA-F]{1,4}\<close>.\<close>

definition hex :: rx where
  "hex = Cls [(CHR ''0'', CHR ''9''), (CHR ''a'', CHR ''f''), (CHR ''A'', CHR ''F'')]"

definition hex14 :: rx where
  "hex14 = rep hex 1 4"

definition colon :: rx where
  "colon = lit (CHR '':'')"

definition hex14_colon :: rx where
  "hex14_colon = seq [hex14, colon]"

definition colon_hex14 :: rx where
  "colon_hex14 = seq [colon, hex14]"

text \<open>\<^verbatim>\<open>(25[0-5]|(2[0-4]|1{0,1}[0-9]){0,1}[0-9])\<close>\<close>

definition octet_rx :: rx where
  "octet_rx =
     Alt (seq [lit (CHR ''2''), lit (CHR ''5''), Cls [(CHR ''0'', CHR ''5'')]])
         (seq [rep (Alt (seq [lit (CHR ''2''), Cls [(CHR ''0'', CHR ''4'')]])
                        (seq [rep (lit (CHR ''1'')) 0 1, Cls [(CHR ''0'', CHR ''9'')]])) 0 1,
               Cls [(CHR ''0'', CHR ''9'')]])"

text \<open>\<^verbatim>\<open>((25[0-5]|(2[0-4]|1{0,1}[0-9]){0,1}[0-9])\.){3,3}(25[0-5]|(2[0-4]|1{0,1}[0-9]){0,1}[0-9])\<close>\<close>

definition dotted_quad_rx :: rx where
  "dotted_quad_rx = seq [rep (seq [octet_rx, dot]) 3 3, octet_rx]"

text \<open>
  The alternatives of \<^verbatim>\<open>ipv6Regex\<close>, in the order of the literal:
  \<^verbatim>\<open>([0-9a-fA-F]{1,4}:){7,7}[0-9a-fA-F]{1,4}\<close>,
  \<^verbatim>\<open>([0-9a-fA-F]{1,4}:){1,7}:\<close>,
  \<^verbatim>\<open>([0-9a-fA-F]{1,4}:){1,6}:[0-9a-fA-F]{1,4}\<close>,
  \<^verbatim>\<open>([0-9a-fA-F]{1,4}:){1,5}(:[0-9a-fA-F]{1,4}){1,2}\<close>,
  \<^verbatim>\<open>([0-9a-fA-F]{1,4}:){1,4}(:[0-9a-fA-F]{1,4}){1,3}\<close>,
  \<^verbatim>\<open>([0-9a-fA-F]{1,4}:){1,3}(:[0-9a-fA-F]{1,4}){1,4}\<close>,
  \<^verbatim>\<open>([0-9a-fA-F]{1,4}:){1,2}(:[0-9a-fA-F]{1,4}){1,5}\<close>,
  \<^verbatim>\<open>[0-9a-fA-F]{1,4}:((:[0-9a-fA-F]{1,4}){1,6})\<close>,
  \<^verbatim>\<open>:((:[0-9a-fA-F]{1,4}){1,7}|:)\<close>,
  \<^verbatim>\<open>fe80:(:[0-9a-fA-F]{0,4}){0,4}%[0-9a-zA-Z]{1,}\<close>,
  \<^verbatim>\<open>::(ffff(:0{1,4}){0,1}:){0,1}\<close> followed by the dotted quad, and
  \<^verbatim>\<open>([0-9a-fA-F]{1,4}:){1,4}:\<close> followed by the dotted quad.
\<close>

definition ipv6_full :: rx where
  "ipv6_full = seq [rep hex14_colon 7 7, hex14]"

definition ipv6_trailing :: rx where
  "ipv6_trailing = seq [rep hex14_colon 1 7, colon]"

definition ipv6_gap :: "nat \<Rightarrow> nat \<Rightarrow> rx" where
  "ipv6_gap l r = seq [rep hex14_colon 1 l, rep colon_hex14 1 r]"

definition ipv6_one_left :: rx where
  "ipv6_one_left = seq [hex14, colon, rep colon_hex14 1 6]"

definition ipv6_leading :: rx where
  "ipv6_leading = seq [colon, Alt (rep colon_hex14 1 7) colon]"

definition ipv6_link_local :: rx where
  "ipv6_link_local =
     seq [lit (CHR ''f''), lit (CHR ''e''), lit (CHR ''8''), lit (CHR ''0''), colon,
          rep (seq [colon, rep hex 0 4]) 0 4,
          lit (CHR ''%''),
          rep_min (Cls [(CHR ''0'', CHR ''9''), (CHR ''a'', CHR ''z''), (CHR ''A'', CHR ''Z'')]) 1]"

definition ipv6_mapped :: rx where
  "ipv6_mapped =
     seq [colon, colon,
          rep (seq [lit (CHR ''f''), lit (CHR ''f''), lit (CHR ''f''), lit (CHR ''f''),
                    rep (seq [colon, rep (lit (CHR ''0'')) 1 4]) 0 1, colon]) 0 1,
          dotted_quad_rx]"

definition ipv6_embedded :: rx where
  "ipv6_embedded = seq [rep hex14_colon 1 4, colon, dotted_quad_rx]"

definition ipv6Regex :: rx where
  "ipv6Regex =
     alts [ipv6_full, ipv6_trailing,
           seq [rep hex14_colon 1 6, colon, hex14],
           ipv6_gap 5 2, ipv6_gap 4 3, ipv6_gap 3 4, ipv6_gap 2 5,
           ipv6_one_left, ipv6_leading, ipv6_link_local, ipv6_mapped, ipv6_embedded]"

text \<open>\<^verbatim>\<open>/^(\d{1,3}\.){0,3}\d{1,3}$/\<close> and \<^verbatim>\<open>/^(\d{1,3}\.){4,}\d{1,3}$/\<close>\<close>

definition incompleteIpv4 :: rx where
  "incompleteIpv4 = seq [rep digits13_dot 0 3, digits13]"

definition tooManyOctets :: rx where
  "tooManyOctets = seq [rep_min digits13_dot 4, digits13]"

text \<open>
  \<^verbatim>\<open>[a-zA-Z0-9]\<close>, \<^verbatim>\<open>[a-zA-Z0-9\-]\<close> and the label
  \<^verbatim>\<open>([a-zA-Z0-9]|[a-zA-Z0-9][a-zA-Z0-9\-]*[a-zA-Z0-9])\<close>; the last label of the literal
  spells the same classes as \<^verbatim>\<open>[A-Za-z0-9]\<close> and \<^verbatim>\<open>[A-Za-z0-9\-]\<close>.
\<close>

definition alnum :: rx where
  "alnum = Cls [(CHR ''a'', CHR ''z''), (CHR ''A'', CHR ''Z''), (CHR ''0'', CHR ''9'')]"

definition alnum_dash :: rx where
  "alnum_dash = Cls [(CHR ''a'', CHR ''z''), (CHR ''A'', CHR ''Z''), (CHR ''0'', CHR ''9''), (CHR ''-'', CHR ''-'')]"

definition label_rx :: rx where
  "label_rx = Alt alnum (seq [alnum, Star alnum_dash, alnum])"

definition alnum_last :: rx where
  "alnum_last = Cls [(CHR ''A'', CHR ''Z''), (CHR ''a'', CHR ''z''), (CHR ''0'', CHR ''9'')]"

definition alnum_dash_last :: rx where
  "alnum_dash_last = Cls [(CHR ''A'', CHR ''Z''), (CHR ''a'', CHR ''z''), (CHR ''0'', CHR ''9''), (CHR ''-'', CHR ''-'')]"

definition last_label_rx :: rx where
  "last_label_rx = Alt alnum_last (seq [alnum_last, Star alnum_dash_last, alnum_last])"

text \<open>
  \<^verbatim>\<open>/^(([a-zA-Z0-9]|[a-zA-Z0-9][a-zA-Z0-9\-]*[a-zA-Z0-9])\.)*([A-Za-z0-9]|[A-Za-z0-9][A-Za-z0-9\-]*[A-Za-z0-9])$/\<close>
\<close>

definition hostnameRegex :: rx where
  "hostnameRegex = seq [Star (seq [label_rx, dot]), last_label_rx]"

text \<open>\<^verbatim>\<open>s.split(c)\<close> for a one-character separator: the pieces between the separators.\<close>

fun split_on :: "char \<Rightarrow> string \<Rightarrow> string list" where
  "split_on c [] = [[]]"
| "split_on c (x # xs) =
     (if x = c then [] # split_on c xs
      else (case split_on c xs of p # ps \<Rightarrow> (x # p) # ps | [] \<Rightarrow> [[x]]))"

text \<open>
  \<^verbatim>\<open>host.match(ipv4Pattern)\<close>: \<open>None\<close> for \<^verbatim>\<open>null\<close>, otherwise the array of the whole
  match followed by the four groups. The pattern is anchored and its groups are runs of
  digits separated by literal dots, so the whole match is the host and group \<open>i\<close> is
  the \<open>i\<close>-th piece of the host between the dots.
\<close>

definition ipv4Match :: "string \<Rightarrow> string list option" where
  "ipv4Match h = (if matches ipv4Pattern h then Some (h # split_on (CHR ''.'') h) else None)"

text \<open>
  \<^verbatim>\<open>parseInt(s, 10)\<close> on a string that starts with a digit: the value of its leading
  run of digits; \<open>None\<close> is \<^verbatim>\<open>NaN\<close> (no leading digit; white space and signs, which no
  group of the pattern contains, are not modelled).
\<close>

definition digit_value :: "char \<Rightarrow> nat" where
  "digit_value c = of_char c - 48"

definition is_digit :: "char \<Rightarrow> bool" where
  "is_digit c = in_cls [(CHR ''0'', CHR ''9'')] c"

definition decimal_value :: "string \<Rightarrow> nat" where
  "decimal_value ds = foldl (\<lambda>acc c. 10 * acc + digit_value c) 0 ds"

definition parseInt :: "string \<Rightarrow> int option" where
  "parseInt s =
     (let ds = takeWhile is_digit s
      in if ds = [] then None else Some (int (decimal_value ds)))"

text \<open>\<^verbatim>\<open>octet < 0 || octet > 255\<close>; both comparisons are false on \<^verbatim>\<open>NaN\<close>.\<close>

definition octet_out_of_range :: "string \<Rightarrow> bool" where
  "octet_out_of_range g = (case parseInt g of None \<Rightarrow> False | Some octet \<Rightarrow> octet < 0 \<or> octet > 255)"

text \<open>
  A host is a string here, so \<^verbatim>\<open>typeof host !== 'string'\<close> is false and
  \<^verbatim>\<open>!host\<close> holds exactly for the empty string. The loop over the four groups
  returns at the first octet out of range.
\<close>

definition isValidHost :: "string \<Rightarrow> bool" where
  "isValidHost h =
     (if h = [] then False
      else (case ipv4Match h of
              Some m \<Rightarrow>
                if length (split_on (CHR ''.'') (m ! 0)) \<noteq> 4 then False
                else if list_ex (\<lambda>i. octet_out_of_range (m ! i)) [1, 2, 3, 4] then False
                else True
            | None \<Rightarrow>
                if matches ipv6Regex h then True
                else if matches incompleteIpv4 h \<and> length (split_on (CHR ''.'') h) < 4 then False
                else if matches tooManyOctets h then False
                else matches hostnameRegex h))"

text \<open>
  A port as the validator may receive it: an integral number, or a number for which
  \<^verbatim>\<open>Number.isInteger\<close> is false (a fraction, \<^verbatim>\<open>NaN\<close>, an infinity).
\<close>

datatype js_number = Integral int | NonIntegral

definition isValidPort :: "js_number \<Rightarrow> bool" where
  "isValidPort p = (case p of NonIntegral \<Rightarrow> False | Integral n \<Rightarrow> n \<ge> 1 \<and> n \<le> 65535)"

record validation =
  isValid :: bool
  v_error :: "string option"

definition validateConnection :: "string \<Rightarrow> js_number \<Rightarrow> validation" where
  "validateConnection h p =
     (if h = [] then \<lparr>isValid = False, v_error = Some ''Host must be a non-empty string''\<rparr>
      else if \<not> isValidHost h then
        \<lparr>isValid = False, v_error = Some ''Invalid hostname or IP address format''\<rparr>
      else if \<not> isValidPort p then
        \<lparr>isValid = False, v_error = Some ''Port must be an integer between 1 and 65535''\<rparr>
      else \<lparr>isValid = True, v_error = None\<rparr>)"

section \<open>The language of a regular expression\<close>

text \<open>
  What the matcher decides: the set of strings an expression denotes. \<open>kleene A\<close> is
  the set of concatenations of finitely many strings of \<open>A\<close>.
\<close>

inductive_set kleene :: "string set \<Rightarrow> string set" for A :: "string set" where
  empty: "[] \<in> kleene A"
| more: "u \<in> A \<Longrightarrow> v \<in> kleene A \<Longrightarrow> u @ v \<in> kleene A"

fun lang :: "rx \<Rightarrow> string set" where
  "lang Fail = {}"
| "lang Eps = {[]}"
| "lang (Cls rs) = {[c] | c. in_cls rs c}"
| "lang (Cat r s) = {u @ v | u v. u \<in> lang r \<and> v \<in> lang s}"
| "lang (Alt r s) = lang r \<union> lang s"
| "lang (Star r) = kleene (lang r)"

text \<open>
  A sufficient test that every string of an expression contains a given character; it is
  used to tell the IPv6 pattern, whose alternatives all need a colon, from strings of
  digits and dots.
\<close>

fun must_contain :: "char \<Rightarrow> rx \<Rightarrow> bool" where
  "must_contain c Fail = True"
| "must_contain c Eps = False"
| "must_contain c (Cls rs) = (rs = [(c, c)])"
| "must_contain c (Cat r s) = (must_contain c r \<or> must_contain c s)"
| "must_contain c (Alt r s) = (must_contain c r \<and> must_contain c s)"
| "must_contain c (Star r) = False"

section \<open>The accepted shapes, in the words of the specification\<close>








text \<open>
  The strings made only of dot-separated groups of one to three digits: the strings the
  validator treats as IPv4 addresses, complete or not.
\<close>

definition digit_groups :: "string \<Rightarrow> bool" where
  "digit_groups h =
     list_all (\<lambda>p. 1 \<le> length p \<and> length p \<le> 3 \<and> list_all is_digit p) (split_on (CHR ''.'') h)"

section \<open>The probes behind a report\<close>


definition scan_probe :: "world \<Rightarrow> string \<Rightarrow> int \<Rightarrow> int \<Rightarrow> int \<Rightarrow> probe_outcome" where
  "scan_probe w h timeout startPort p =
     resolve timeout (network w (length (trace w) + nat (p - startPort)) h p)"

section \<open>Properties of the connector\<close>

lemma tcpConnect_accepted:
  "0 \<le> p \<Longrightarrow> p \<le> 65535 \<Longrightarrow>
     tcpConnect w h p t =
       (Inr (resolve t (network w (length (trace w)) h p)), w\<lparr>trace := trace w @ [Probe h p t]\<rparr>)"
  by (simp add: tcpConnect_def)



section \<open>Properties of the aggregator\<close>

lemma tcping_loop_step:
  "i < cnt \<Longrightarrow> 0 \<le> p \<Longrightarrow> p \<le> 65535 \<Longrightarrow>
     tcping_loop h p t cnt iv i acc w =
       tcping_loop h p t cnt iv (i + 1) (acc @ [resolve t (network w (length (trace w)) h p)])
         (if i < cnt - 1 then sleep (w\<lparr>trace := trace w @ [Probe h p t]\<rparr>) iv
          else w\<lparr>trace := trace w @ [Probe h p t]\<rparr>)"
  by (subst tcping_loop.simps) (simp add: tcpConnect_accepted Let_def)

lemma tcping_loop_done: "cnt \<le> i \<Longrightarrow> tcping_loop h p t cnt iv i acc w = (Inr acc, w)"
  by (simp add: tcping_loop.simps)



text \<open>
  The scenario of the specification: three attempts against a target that always
  connects in 42 ms.
\<close>

lemma tcping_always_42ms:
  "fst (tcping \<lparr>network = (\<lambda>n h p. Connected 42), trace = []\<rparr>
      \<lparr>opt_host = ''example.com'', opt_port = 80, opt_timeout = None,
       opt_count = Some 3, opt_interval = None\<rparr>)
   = Inr \<lparr>host = ''example.com'', port = 80, tp_success = True, attempts = 3,
          successfulAttempts = 3, averageTime = Some 42, minTime = Some 42, maxTime = Some 42,
          results = [\<lparr>success = True, responseTime = Some 42, error = None\<rparr>,
                     \<lparr>success = True, responseTime = Some 42, error = None\<rparr>,
                     \<lparr>success = True, responseTime = Some 42, error = None\<rparr>]\<rparr>"
  by (simp add: tcping_def default_to_def tcping_loop_step tcping_loop_done
      resolve_def sleep_def summarise_def Let_def truthy_number_def round_quotient_def)

text \<open>
  C1. The claim: when the target fails validation, tcping makes no connector call and
  returns attempts = 0 with no per-attempt outcomes. The aggregator never consults the
  validator. For the empty host, which \<open>validateConnection\<close> rejects, and count 2, it
  makes two connector calls with a wait between them, and returns attempts = 2 and the
  two outcomes, in every world.
\<close>

theorem tcping_probes_invalid_target:
  "\<not> isValid (validateConnection [] (Integral 80)) \<and>
   fst (tcping w \<lparr>opt_host = [], opt_port = 80, opt_timeout = None,
                   opt_count = Some 2, opt_interval = None\<rparr>)
     = Inr (summarise [] 80 2
              [resolve 3000 (network w (length (trace w)) [] 80),
               resolve 3000 (network w (length (trace w) + 2) [] 80)]) \<and>
   attempts (summarise [] 80 2
              [resolve 3000 (network w (length (trace w)) [] 80),
               resolve 3000 (network w (length (trace w) + 2) [] 80)]) = 2 \<and>
   trace (snd (tcping w \<lparr>opt_host = [], opt_port = 80, opt_timeout = None,
                         opt_count = Some 2, opt_interval = None\<rparr>))
     = trace w @ [Probe [] 80 3000, Sleep 1000, Probe [] 80 3000]"
  by (simp add: validateConnection_def tcping_def default_to_def tcping_loop_step tcping_loop_done
      sleep_def summarise_def Let_def)

text \<open>
  C3. The claim: the statistics are present exactly when some attempt succeeded. The
  response times are selected by truthiness, which drops a response time of 0. One
  attempt that connects within the same millisecond is counted as successful, and the
  result carries none of the three statistics.
\<close>

theorem tcping_zero_ms_success_without_statistics:
  "fst (tcping \<lparr>network = (\<lambda>n h p. Connected 0), trace = []\<rparr>
      \<lparr>opt_host = ''localhost'', opt_port = 8080, opt_timeout = None,
       opt_count = Some 1, opt_interval = None\<rparr>)
   = Inr \<lparr>host = ''localhost'', port = 8080, tp_success = True, attempts = 1,
          successfulAttempts = 1, averageTime = None, minTime = None, maxTime = None,
          results = [\<lparr>success = True, responseTime = Some 0, error = None\<rparr>]\<rparr>"
  by (simp add: tcping_def default_to_def tcping_loop_step tcping_loop_done
      resolve_def sleep_def summarise_def Let_def truthy_number_def)

text \<open>
  C4. The claim: the average is the rounded mean of the successful attempts' response
  times, and the minimum and maximum are taken over the same times. Two successful
  attempts with response times 0 and 10 have mean 5 and minimum 0; the result reports
  minimum, average and maximum 10, because the response time 0 is dropped before the
  statistics are computed.
\<close>

theorem tcping_statistics_skip_zero_ms:
  "fst (tcping \<lparr>network = (\<lambda>n h p. if n = 0 then Connected 0 else Connected 10), trace = []\<rparr>
      \<lparr>opt_host = ''localhost'', opt_port = 8080, opt_timeout = None,
       opt_count = Some 2, opt_interval = None\<rparr>)
   = Inr \<lparr>host = ''localhost'', port = 8080, tp_success = True, attempts = 2,
          successfulAttempts = 2, averageTime = Some 10, minTime = Some 10, maxTime = Some 10,
          results = [\<lparr>success = True, responseTime = Some 0, error = None\<rparr>,
                     \<lparr>success = True, responseTime = Some 10, error = None\<rparr>]\<rparr>"
  by (simp add: tcping_def default_to_def tcping_loop_step tcping_loop_done
      resolve_def sleep_def summarise_def Let_def truthy_number_def round_quotient_def)

text \<open>
  What the statistics do satisfy, for any outcomes: they are present exactly when some
  outcome has a non-zero response time, and when present they are ordered.
\<close>

lemma statistics_present:
  "averageTime (summarise h p c rs) \<noteq> None \<longleftrightarrow> (\<exists>r\<in>set rs. truthy_number (responseTime r))"
  "minTime (summarise h p c rs) \<noteq> None \<longleftrightarrow> (\<exists>r\<in>set rs. truthy_number (responseTime r))"
  "maxTime (summarise h p c rs) \<noteq> None \<longleftrightarrow> (\<exists>r\<in>set rs. truthy_number (responseTime r))"
proof -
  let ?ts = "map (\<lambda>r. the (responseTime r)) (filter (\<lambda>r. truthy_number (responseTime r)) rs)"
  have ne: "?ts \<noteq> [] \<longleftrightarrow> (\<exists>r\<in>set rs. truthy_number (responseTime r))"
    by (simp add: filter_empty_conv)
  have red: "reduce f ?ts \<noteq> None" if "?ts \<noteq> []" for f :: "int \<Rightarrow> int \<Rightarrow> int"
    using that by (cases ?ts) simp_all
  show "averageTime (summarise h p c rs) \<noteq> None \<longleftrightarrow> (\<exists>r\<in>set rs. truthy_number (responseTime r))"
    using ne red [of "(+)"] by (auto simp: summarise_def Let_def)
  show "minTime (summarise h p c rs) \<noteq> None \<longleftrightarrow> (\<exists>r\<in>set rs. truthy_number (responseTime r))"
    using ne red [of min] by (auto simp: summarise_def Let_def)
  show "maxTime (summarise h p c rs) \<noteq> None \<longleftrightarrow> (\<exists>r\<in>set rs. truthy_number (responseTime r))"
    using ne red [of max] by (auto simp: summarise_def Let_def)
qed

lemma foldl_min_bound: "foldl min (a::int) xs \<le> a \<and> (\<forall>x\<in>set xs. foldl min a xs \<le> x)"
proof (induction xs arbitrary: a)
  case Nil
  show ?case by simp
next
  case (Cons x xs)
  from Cons [of "min a x"] have "foldl min (min a x) xs \<le> min a x"
    and "\<forall>y\<in>set xs. foldl min (min a x) xs \<le> y" by blast+
  then show ?case by (simp add: min_le_iff_disj)
qed

lemma foldl_max_bound: "a \<le> foldl max (a::int) xs \<and> (\<forall>x\<in>set xs. x \<le> foldl max a xs)"
proof (induction xs arbitrary: a)
  case Nil
  show ?case by simp
next
  case (Cons x xs)
  from Cons [of "max a x"] have "max a x \<le> foldl max (max a x) xs"
    and "\<forall>y\<in>set xs. y \<le> foldl max (max a x) xs" by blast+
  then show ?case by (simp add: le_max_iff_disj)
qed

lemma foldl_plus_sum: "foldl (+) (a::int) xs = a + sum_list xs"
  by (induction xs arbitrary: a) simp_all

lemma sum_list_bounds:
  assumes "\<forall>x\<in>set xs. lo \<le> x \<and> x \<le> (hi::int)"
  shows "int (length xs) * lo \<le> sum_list xs \<and> sum_list xs \<le> int (length xs) * hi"
  using assms by (induction xs) (auto simp: algebra_simps)

lemma round_quotient_between:
  assumes "0 < n" and "n * lo \<le> s" and "s \<le> n * hi"
  shows "lo \<le> round_quotient s n \<and> round_quotient s n \<le> hi"
proof -
  let ?m = "2 * n"
  have m: "0 < ?m" using assms(1) by simp
  have "lo * ?m \<le> 2 * s + n" using assms by (simp add: algebra_simps)
  then have "(lo * ?m) div ?m \<le> (2 * s + n) div ?m" using m by (rule zdiv_mono1)
  then have lower: "lo \<le> (2 * s + n) div ?m" using m by simp
  have "2 * s + n \<le> n + hi * ?m" using assms by (simp add: algebra_simps)
  then have "(2 * s + n) div ?m \<le> (n + hi * ?m) div ?m" using m by (rule zdiv_mono1)
  moreover have "(n + hi * ?m) div ?m = n div ?m + hi" using m by (simp only: div_mult_self1)
  moreover have "n div ?m = 0" using assms(1) by (simp add: div_pos_pos_trivial)
  ultimately have upper: "(2 * s + n) div ?m \<le> hi" by simp
  from lower upper show ?thesis by (simp add: round_quotient_def)
qed

lemma statistics_ordered:
  assumes "minTime (summarise h p c rs) = Some lo"
    and "averageTime (summarise h p c rs) = Some av"
    and "maxTime (summarise h p c rs) = Some hi"
  shows "lo \<le> av \<and> av \<le> hi"
proof -
  let ?ts = "map (\<lambda>r. the (responseTime r)) (filter (\<lambda>r. truthy_number (responseTime r)) rs)"
  from assms(1) obtain t ts where ts: "?ts = t # ts"
    by (cases ?ts) (auto simp: summarise_def Let_def)
  have lo: "lo = foldl min t ts" and hi: "hi = foldl max t ts"
    and av: "av = round_quotient (foldl (+) t ts) (int (length (t # ts)))"
    using assms ts by (auto simp: summarise_def Let_def)
  have "\<forall>x\<in>set (t # ts). lo \<le> x \<and> x \<le> hi"
    using foldl_min_bound [of t ts] foldl_max_bound [of t ts] by (simp add: lo hi)
  from sum_list_bounds [OF this]
  have "int (length (t # ts)) * lo \<le> foldl (+) t ts" "foldl (+) t ts \<le> int (length (t # ts)) * hi"
    by (simp_all add: foldl_plus_sum)
  moreover have "0 < int (length (t # ts))" by simp
  ultimately show ?thesis unfolding av by (intro round_quotient_between)
qed



section \<open>Properties of the firewall rule evaluator\<close>




section \<open>Properties of the port-range scanner\<close>

lemma scan_loop_accepted:
  assumes "p \<le> e \<longrightarrow> 0 \<le> p \<and> e \<le> 65535"
  shows "\<exists>body. scan_loop h e t p acc out w =
           (Inr (acc @ map (\<lambda>q. \<lparr>op_port = q, op_responseTime = responseTime (scan_probe w h t p q)\<rparr>)
                           (filter (\<lambda>q. success (scan_probe w h t p q)) [p..e]),
                 out @ body),
            w\<lparr>trace := trace w @ map (\<lambda>q. Probe h q t) [p..e]\<rparr>)"
  using assms
proof (induction h e t p acc out w rule: scan_loop.induct)
  case (1 h e t p acc out w)
  show ?case
  proof (cases "p \<le> e")
    case False
    then show ?thesis by (simp add: scan_loop.simps [of h e t p])
  next
    case True
    with "1.prems" have range: "0 \<le> p" "p \<le> 65535" "e \<le> 65535" by auto
    let ?w1 = "w\<lparr>trace := trace w @ [Probe h p t]\<rparr>"
    let ?r = "resolve t (network w (length (trace w)) h p)"
    have c: "tcpConnect w h p t = (Inr ?r, ?w1)" using range by (simp add: tcpConnect_accepted)
    have r: "scan_probe w h t p p = ?r" by (simp add: scan_probe_def)
    have shift: "\<And>q. q \<in> set [p + 1..e] \<Longrightarrow> scan_probe ?w1 h t (p + 1) q = scan_probe w h t p q"
    proof -
      fix q assume "q \<in> set [p + 1..e]"
      then have "p + 1 \<le> q" by simp
      then have e: "nat (q - p) = Suc (nat (q - (p + 1)))" by linarith
      show "scan_probe ?w1 h t (p + 1) q = scan_probe w h t p q"
        by (simp add: scan_probe_def e)
    qed
    have f: "filter (\<lambda>q. success (scan_probe ?w1 h t (p + 1) q)) [p + 1..e]
             = filter (\<lambda>q. success (scan_probe w h t p q)) [p + 1..e]"
      by (rule filter_cong) (simp_all add: shift)
    have m: "map (\<lambda>q. \<lparr>op_port = q, op_responseTime = responseTime (scan_probe ?w1 h t (p + 1) q)\<rparr>)
               (filter (\<lambda>q. success (scan_probe w h t p q)) [p + 1..e])
           = map (\<lambda>q. \<lparr>op_port = q, op_responseTime = responseTime (scan_probe w h t p q)\<rparr>)
               (filter (\<lambda>q. success (scan_probe w h t p q)) [p + 1..e])"
      by (rule map_cong) (simp_all add: shift)
    have next_range: "p + 1 \<le> e \<longrightarrow> 0 \<le> p + 1 \<and> e \<le> 65535" using range by simp
    show ?thesis
    proof (cases "success ?r")
      case True
      let ?acc1 = "acc @ [\<lparr>op_port = p, op_responseTime = responseTime ?r\<rparr>]"
      let ?line = "''Port '' @ show_int p @ '': OPEN ('' @ show_optional (responseTime ?r) @ ''ms)'' @ [CHR 0x0A]"
      from "1.IH"(1) [OF \<open>p \<le> e\<close> c [symmetric] refl True next_range]
      obtain body where
        "scan_loop h e t (p + 1) ?acc1 (out @ ?line) ?w1 =
           (Inr (?acc1 @ map (\<lambda>q. \<lparr>op_port = q, op_responseTime = responseTime (scan_probe ?w1 h t (p + 1) q)\<rparr>)
                             (filter (\<lambda>q. success (scan_probe ?w1 h t (p + 1) q)) [p + 1..e]),
                 (out @ ?line) @ body),
            ?w1\<lparr>trace := trace ?w1 @ map (\<lambda>q. Probe h q t) [p + 1..e]\<rparr>)"
        by auto
      then have "scan_loop h e t p acc out w =
           (Inr (acc @ map (\<lambda>q. \<lparr>op_port = q, op_responseTime = responseTime (scan_probe w h t p q)\<rparr>)
                           (filter (\<lambda>q. success (scan_probe w h t p q)) [p..e]),
                 out @ (?line @ body)),
            w\<lparr>trace := trace w @ map (\<lambda>q. Probe h q t) [p..e]\<rparr>)"
        using True \<open>p \<le> e\<close>
        by (simp add: scan_loop.simps [of h e t p] c upto_rec1 [of p e] r f m)
      then show ?thesis by blast
    next
      case False
      from "1.IH"(2) [OF \<open>p \<le> e\<close> c [symmetric] refl False next_range]
      obtain body where
        "scan_loop h e t (p + 1) acc out ?w1 =
           (Inr (acc @ map (\<lambda>q. \<lparr>op_port = q, op_responseTime = responseTime (scan_probe ?w1 h t (p + 1) q)\<rparr>)
                           (filter (\<lambda>q. success (scan_probe ?w1 h t (p + 1) q)) [p + 1..e]),
                 out @ body),
            ?w1\<lparr>trace := trace ?w1 @ map (\<lambda>q. Probe h q t) [p + 1..e]\<rparr>)"
        by auto
      then have "scan_loop h e t p acc out w =
           (Inr (acc @ map (\<lambda>q. \<lparr>op_port = q, op_responseTime = responseTime (scan_probe w h t p q)\<rparr>)
                           (filter (\<lambda>q. success (scan_probe w h t p q)) [p..e]),
                 out @ body),
            w\<lparr>trace := trace w @ map (\<lambda>q. Probe h q t) [p..e]\<rparr>)"
        using False \<open>p \<le> e\<close>
        by (simp add: scan_loop.simps [of h e t p] c upto_rec1 [of p e] r f m)
      then show ?thesis by blast
    qed
  qed
qed

text \<open>
  C8. A scan of a range of ports that \<^verbatim>\<open>socket.connect\<close> accepts makes one connector
  call for each port of [startPort..endPort], in ascending order, and no other call; the
  open ports are exactly the ports of the range whose probe succeeded, in ascending
  order. When startPort is greater than endPort the scan makes no call and reports no
  open port.
\<close>

theorem scan_probes_range_in_order:
  assumes "startPort \<le> endPort \<longrightarrow> 0 \<le> startPort \<and> endPort \<le> 65535"
  shows "\<exists>openPorts report.
           fst (handleNetworkScan w h startPort endPort timeout_arg) = Inr (openPorts, report) \<and>
           map op_port openPorts =
             filter (\<lambda>p. success (scan_probe w h (default_to 1000 timeout_arg) startPort p))
                    [startPort..endPort] \<and>
           sorted_wrt (<) (map op_port openPorts) \<and>
           (endPort < startPort \<longrightarrow>
              openPorts = [] \<and> trace (snd (handleNetworkScan w h startPort endPort timeout_arg)) = trace w) \<and>
           trace (snd (handleNetworkScan w h startPort endPort timeout_arg))
             = trace w @ map (\<lambda>p. Probe h p (default_to 1000 timeout_arg)) [startPort..endPort]"
proof -
  let ?t = "default_to 1000 timeout_arg"
  let ?out0 = "''Network Scan: '' @ h @ '':'' @ show_int startPort @ ''-'' @ show_int endPort
                    @ [CHR 0x0A] @ replicate 50 (CHR ''='') @ [CHR 0x0A, CHR 0x0A]"
  let ?open = "filter (\<lambda>p. success (scan_probe w h ?t startPort p)) [startPort..endPort]"
  let ?ops = "map (\<lambda>q. \<lparr>op_port = q, op_responseTime = responseTime (scan_probe w h ?t startPort q)\<rparr>) ?open"
  let ?w' = "w\<lparr>trace := trace w @ map (\<lambda>q. Probe h q ?t) [startPort..endPort]\<rparr>"
  from scan_loop_accepted [OF assms, of h ?t "[]" ?out0 w]
  obtain body where loop: "scan_loop h endPort ?t startPort [] ?out0 w = (Inr (?ops, ?out0 @ body), ?w')"
    by auto
  let ?report = "if length ?ops = 0
                 then (?out0 @ body) @ ''No open ports found in the specified range.'' @ [CHR 0x0A]
                 else (?out0 @ body) @ [CHR 0x0A] @ ''Summary: Found '' @ show_nat (length ?ops)
                      @ '' open ports'' @ [CHR 0x0A]"
  have hd: "handleNetworkScan w h startPort endPort timeout_arg = (Inr (?ops, ?report), ?w')"
    by (simp only: handleNetworkScan_def Let_def loop prod.case sum.case)
  have ports: "map op_port ?ops = ?open" by (simp add: comp_def)
  have "sorted_wrt (<) [startPort..endPort]" by (simp add: sorted_wrt_upto)
  then have "sorted_wrt (<) ?open" by (rule sorted_wrt_filter)
  then have srt: "sorted_wrt (<) (map op_port ?ops)" by (simp only: ports)
  have deg: "endPort < startPort \<longrightarrow>
               ?ops = [] \<and> trace (snd (handleNetworkScan w h startPort endPort timeout_arg)) = trace w"
    by (simp add: hd)
  have tr: "trace (snd (handleNetworkScan w h startPort endPort timeout_arg))
              = trace w @ map (\<lambda>p. Probe h p ?t) [startPort..endPort]"
    by (simp add: hd)
  have "fst (handleNetworkScan w h startPort endPort timeout_arg) = Inr (?ops, ?report)"
    by (simp add: hd)
  with ports srt deg tr show ?thesis by blast
qed

theorem scan_probes_range_in_order_witness:
  "(19::int) < 20 \<and>
   (\<exists>report. fst (handleNetworkScan \<lparr>network = (\<lambda>n h p. Connected 3), trace = []\<rparr>
                     ''10.0.1.5'' 20 19 None) = Inr ([], report)) \<and>
   trace (snd (handleNetworkScan \<lparr>network = (\<lambda>n h p. Connected 3), trace = []\<rparr>
                 ''10.0.1.5'' 20 19 None)) = [] \<and>
   (20::int) \<le> 22 \<and> (0::int) \<le> 20 \<and> (22::int) \<le> 65535 \<and>
   (\<exists>openPorts report.
      fst (handleNetworkScan
             \<lparr>network = (\<lambda>n h p. if p = 22 then Connected 3 else SocketError ''connect ECONNREFUSED''),
              trace = []\<rparr> ''10.0.1.5'' 20 22 None) = Inr (openPorts, report) \<and>
      map op_port openPorts = [22]) \<and>
   trace (snd (handleNetworkScan
                 \<lparr>network = (\<lambda>n h p. if p = 22 then Connected 3 else SocketError ''connect ECONNREFUSED''),
                  trace = []\<rparr> ''10.0.1.5'' 20 22 None))
     = [Probe ''10.0.1.5'' 20 1000, Probe ''10.0.1.5'' 21 1000, Probe ''10.0.1.5'' 22 1000]"
proof -
  let ?w1 = "\<lparr>network = (\<lambda>n h p. Connected 3), trace = []\<rparr>"
  let ?w2 = "\<lparr>network = (\<lambda>n h p. if p = 22 then Connected 3 else SocketError ''connect ECONNREFUSED''),
              trace = []\<rparr>"
  have r1: "(20::int) \<le> 19 \<longrightarrow> (0::int) \<le> 20 \<and> (19::int) \<le> 65535" by simp
  have r2: "(20::int) \<le> 22 \<longrightarrow> (0::int) \<le> 20 \<and> (22::int) \<le> 65535" by simp
  have range: "[20..22] = [20, 21, 22::int]" by (simp add: upto_rec1)
  from scan_probes_range_in_order [OF r1, of ?w1 "''10.0.1.5''" None]
  have a: "(\<exists>report. fst (handleNetworkScan ?w1 ''10.0.1.5'' 20 19 None) = Inr ([], report)) \<and>
           trace (snd (handleNetworkScan ?w1 ''10.0.1.5'' 20 19 None)) = []"
    by auto
  from scan_probes_range_in_order [OF r2, of ?w2 "''10.0.1.5''" None]
  have b: "(\<exists>openPorts report.
              fst (handleNetworkScan ?w2 ''10.0.1.5'' 20 22 None) = Inr (openPorts, report) \<and>
              map op_port openPorts = [22]) \<and>
           trace (snd (handleNetworkScan ?w2 ''10.0.1.5'' 20 22 None))
             = [Probe ''10.0.1.5'' 20 1000, Probe ''10.0.1.5'' 21 1000, Probe ''10.0.1.5'' 22 1000]"
    by (auto simp: range scan_probe_def resolve_def default_to_def)
  from a b show ?thesis by simp
qed

section \<open>The handlers and the validator\<close>

text \<open>
  C2. The claim: every target of a firewall validation or of a scan passes the validator
  before a connector call is made for it. Neither handler consults the validator. A rule
  with the empty host, and a scan of the host "example..com", both of which
  \<open>validateConnection\<close> rejects, each lead to a connector call for that target, in
  every world.
\<close>

theorem handlers_probe_invalid_targets:
  "\<not> isValid (validateConnection [] (Integral 22)) \<and>
   trace (snd (handleFirewallValidation w
      [\<lparr>rule_name = ''SSH'', rule_host = [], rule_port = 22, expected = False\<rparr>] None))
     = trace w @ [Probe [] 22 3000] \<and>
   \<not> isValid (validateConnection ''example..com'' (Integral 80)) \<and>
   trace (snd (handleNetworkScan w ''example..com'' 80 80 None))
     = trace w @ [Probe ''example..com'' 80 1000]"
proof -
  have a: "\<not> isValid (validateConnection [] (Integral 22))"
    by (simp add: validateConnection_def)
  have b: "trace (snd (handleFirewallValidation w
      [\<lparr>rule_name = ''SSH'', rule_host = [], rule_port = 22, expected = False\<rparr>] None))
     = trace w @ [Probe [] 22 3000]"
    by (simp add: handleFirewallValidation_def default_to_def tcpConnect_def Let_def)
  have c: "\<not> isValid (validateConnection ''example..com'' (Integral 80))"
    by code_simp
  have d: "trace (snd (handleNetworkScan w ''example..com'' 80 80 None))
     = trace w @ [Probe ''example..com'' 80 1000]"
    by (simp add: handleNetworkScan_def default_to_def scan_loop.simps [of _ 80 _ 80]
        scan_loop.simps [of _ 80 _ 81] tcpConnect_def Let_def)
  from a b c d show ?thesis by blast
qed

section \<open>The matcher decides the language\<close>

lemma nullable_lang: "nullable r \<longleftrightarrow> [] \<in> lang r"
  by (induction r) (auto intro: kleene.empty)

lemma lang_cat: "lang (cat r s) = lang (Cat r s)"
  by (cases r) auto

lemma lang_alt: "lang (alt r s) = lang (Alt r s)"
  by (cases r; cases s) auto

lemma cons_in_cat:
  "c # w \<in> lang (Cat r s) \<longleftrightarrow>
     (\<exists>u v. w = u @ v \<and> c # u \<in> lang r \<and> v \<in> lang s) \<or> ([] \<in> lang r \<and> c # w \<in> lang s)"
proof
  assume "c # w \<in> lang (Cat r s)"
  then obtain u v where uv: "c # w = u @ v" "u \<in> lang r" "v \<in> lang s" by auto
  show "(\<exists>u v. w = u @ v \<and> c # u \<in> lang r \<and> v \<in> lang s) \<or> ([] \<in> lang r \<and> c # w \<in> lang s)"
  proof (cases u)
    case Nil
    with uv show ?thesis by simp
  next
    case (Cons a u')
    with uv have "w = u' @ v" "c # u' \<in> lang r" by simp_all
    with uv(3) show ?thesis by blast
  qed
next
  assume "(\<exists>u v. w = u @ v \<and> c # u \<in> lang r \<and> v \<in> lang s) \<or> ([] \<in> lang r \<and> c # w \<in> lang s)"
  then show "c # w \<in> lang (Cat r s)"
  proof
    assume "\<exists>u v. w = u @ v \<and> c # u \<in> lang r \<and> v \<in> lang s"
    then obtain u v where "w = u @ v" "c # u \<in> lang r" "v \<in> lang s" by blast
    then have "c # w = (c # u) @ v" by simp
    with \<open>c # u \<in> lang r\<close> \<open>v \<in> lang s\<close> show ?thesis by (simp only: lang.simps) blast
  next
    assume "[] \<in> lang r \<and> c # w \<in> lang s"
    then have "c # w = [] @ (c # w)" "[] \<in> lang r" "c # w \<in> lang s" by simp_all
    then show ?thesis by (simp only: lang.simps) blast
  qed
qed

lemma kleene_cons_split:
  assumes "x \<in> kleene A" and "x = c # w"
  shows "\<exists>u v. w = u @ v \<and> c # u \<in> A \<and> v \<in> kleene A"
  using assms
proof (induction arbitrary: w rule: kleene.induct)
  case empty
  then show ?case by simp
next
  case (more u v)
  show ?case
  proof (cases u)
    case Nil
    with more show ?thesis by simp
  next
    case (Cons a u')
    with more.prems have "w = u' @ v" "a = c" by simp_all
    with Cons more.hyps show ?thesis by blast
  qed
qed

lemma cons_in_kleene:
  "c # w \<in> kleene A \<longleftrightarrow> (\<exists>u v. w = u @ v \<and> c # u \<in> A \<and> v \<in> kleene A)"
proof
  assume "c # w \<in> kleene A"
  then show "\<exists>u v. w = u @ v \<and> c # u \<in> A \<and> v \<in> kleene A"
    by (rule kleene_cons_split) simp
next
  assume "\<exists>u v. w = u @ v \<and> c # u \<in> A \<and> v \<in> kleene A"
  then obtain u v where "w = u @ v" "c # u \<in> A" "v \<in> kleene A" by blast
  then show "c # w \<in> kleene A" using kleene.more [of "c # u" A v] by simp
qed

lemma lang_deriv: "w \<in> lang (deriv c r) \<longleftrightarrow> c # w \<in> lang r"
proof (induction r arbitrary: w)
  case (Cat r s)
  have "w \<in> lang (deriv c (Cat r s)) \<longleftrightarrow>
          w \<in> lang (Cat (deriv c r) s) \<or> ([] \<in> lang r \<and> w \<in> lang (deriv c s))"
    by (simp add: lang_alt lang_cat nullable_lang del: lang.simps(4))
  also have "\<dots> \<longleftrightarrow> (\<exists>u v. w = u @ v \<and> c # u \<in> lang r \<and> v \<in> lang s) \<or> ([] \<in> lang r \<and> c # w \<in> lang s)"
    using Cat.IH by auto
  finally show ?case by (simp only: cons_in_cat)
next
  case (Star r)
  have "w \<in> lang (deriv c (Star r)) \<longleftrightarrow> (\<exists>u v. w = u @ v \<and> u \<in> lang (deriv c r) \<and> v \<in> kleene (lang r))"
    by (simp add: lang_cat)
  then show ?case using Star.IH by (simp add: cons_in_kleene)
qed (auto simp: lang_alt)

lemma matches_lang: "matches r w \<longleftrightarrow> w \<in> lang r"
  by (induction w arbitrary: r) (simp_all add: nullable_lang lang_deriv)

section \<open>Repetition and character classes\<close>

lemma kleene_concat: "\<forall>x\<in>set xs. x \<in> A \<Longrightarrow> concat xs \<in> kleene A"
  by (induction xs) (auto intro: kleene.intros)


lemma rep_concat:
  "\<forall>x\<in>set xs. x \<in> lang r \<Longrightarrow> m \<le> length xs \<Longrightarrow> length xs \<le> n \<Longrightarrow> concat xs \<in> lang (rep r m n)"
proof (induction r m n arbitrary: xs rule: rep.induct)
  case (1 r)
  then show ?case by simp
next
  case (2 r n)
  show ?case
  proof (cases xs)
    case Nil
    then show ?thesis by simp
  next
    case (Cons x xs')
    with 2 have "x \<in> lang r" "concat xs' \<in> lang (rep r 0 n)" by simp_all
    with Cons show ?thesis by auto
  qed
next
  case (3 r m)
  then show ?case by simp
next
  case (4 r m n)
  then obtain x xs' where xs: "xs = x # xs'" by (cases xs) auto
  with 4 have "x \<in> lang r" "concat xs' \<in> lang (rep r m n)" by simp_all
  with xs show ?case by auto
qed

lemma rep_pieces:
  "w \<in> lang (rep r m n) \<Longrightarrow>
     \<exists>xs. w = concat xs \<and> (\<forall>x\<in>set xs. x \<in> lang r) \<and> m \<le> length xs \<and> length xs \<le> n"
proof (induction r m n arbitrary: w rule: rep.induct)
  case (1 r)
  then have "w = concat []" by simp
  then show ?case by (metis empty_iff le_refl list.set(1) list.size(3))
next
  case (2 r n)
  from "2.prems" have "w = [] \<or> (\<exists>u v. w = u @ v \<and> u \<in> lang r \<and> v \<in> lang (rep r 0 n))" by auto
  then show ?case
  proof
    assume "w = []"
    then have "w = concat [] \<and> (\<forall>x\<in>set ([]::string list). x \<in> lang r) \<and> 0 \<le> length ([]::string list)
                \<and> length ([]::string list) \<le> Suc n" by simp
    then show ?thesis by blast
  next
    assume "\<exists>u v. w = u @ v \<and> u \<in> lang r \<and> v \<in> lang (rep r 0 n)"
    then obtain u v where uv: "w = u @ v" "u \<in> lang r" "v \<in> lang (rep r 0 n)" by blast
    from "2.IH" [OF uv(3)] obtain xs where
      xs: "v = concat xs" "\<forall>x\<in>set xs. x \<in> lang r" "length xs \<le> n" by blast
    with uv have "w = concat (u # xs) \<and> (\<forall>x\<in>set (u # xs). x \<in> lang r) \<and> 0 \<le> length (u # xs)
                   \<and> length (u # xs) \<le> Suc n" by simp
    then show ?thesis by blast
  qed
next
  case (3 r m)
  then show ?case by simp
next
  case (4 r m n)
  from "4.prems" obtain u v where uv: "w = u @ v" "u \<in> lang r" "v \<in> lang (rep r m n)" by auto
  from "4.IH" [OF uv(3)] obtain xs where
    xs: "v = concat xs" "\<forall>x\<in>set xs. x \<in> lang r" "m \<le> length xs" "length xs \<le> n" by blast
  with uv have "w = concat (u # xs) \<and> (\<forall>x\<in>set (u # xs). x \<in> lang r) \<and> Suc m \<le> length (u # xs)
                 \<and> length (u # xs) \<le> Suc n" by simp
  then show ?case by blast
qed


lemma rep_min_concat:
  assumes "\<forall>x\<in>set xs. x \<in> lang r" and "m \<le> length xs"
  shows "concat xs \<in> lang (rep_min r m)"
proof -
  have "concat (take m xs) \<in> lang (rep r m m)"
    using assms by (intro rep_concat) (auto dest: in_set_takeD)
  moreover have "concat (drop m xs) \<in> kleene (lang r)"
    using assms by (intro kleene_concat) (auto dest: in_set_dropD)
  moreover have "concat xs = concat (take m xs) @ concat (drop m xs)"
    by (metis append_take_drop_id concat_append)
  ultimately show ?thesis by (auto simp: rep_min_def)
qed

lemma concat_singletons: "concat (map (\<lambda>c. [c]) w) = w"
  by (induction w) simp_all

lemma cls_rep_member:
  assumes "\<forall>c\<in>set w. in_cls cs c" and "m \<le> length w" and "length w \<le> n"
  shows "w \<in> lang (rep (Cls cs) m n)"
proof -
  have "concat (map (\<lambda>c. [c]) w) \<in> lang (rep (Cls cs) m n)"
    using assms by (intro rep_concat) auto
  then show ?thesis by (simp add: concat_singletons)
qed

lemma concat_of_singletons:
  "\<forall>x\<in>set xs. \<exists>c. x = [c] \<and> P c \<Longrightarrow> length (concat xs) = length xs \<and> (\<forall>c\<in>set (concat xs). P c)"
  by (induction xs) auto

lemma cls_rep_chars:
  assumes "w \<in> lang (rep (Cls cs) m n)"
  shows "(\<forall>c\<in>set w. in_cls cs c) \<and> m \<le> length w \<and> length w \<le> n"
proof -
  from rep_pieces [OF assms] obtain xs where
    xs: "w = concat xs" "\<forall>x\<in>set xs. x \<in> lang (Cls cs)" "m \<le> length xs" "length xs \<le> n" by blast
  from xs(2) have "\<forall>x\<in>set xs. \<exists>c. x = [c] \<and> in_cls cs c" by auto
  from concat_of_singletons [OF this] xs show ?thesis by simp
qed


section \<open>Splitting at a separator\<close>

lemma split_on_not_empty: "split_on c s \<noteq> []"
  by (induction s) (auto split: list.splits)

lemma split_on_no_separator: "c \<notin> set g \<Longrightarrow> split_on c g = [g]"
  by (induction g) auto

lemma split_on_group: "c \<notin> set g \<Longrightarrow> split_on c (g @ c # rest) = g # split_on c rest"
  by (induction g) auto

lemma split_on_groups:
  "\<forall>g\<in>set gs. c \<notin> set g \<Longrightarrow> c \<notin> set g' \<Longrightarrow>
     split_on c (concat (map (\<lambda>g. g @ [c]) gs) @ g') = gs @ [g']"
  by (induction gs) (simp_all add: split_on_no_separator split_on_group)

lemma split_on_pieces_free: "\<forall>p\<in>set (split_on c s). c \<notin> set p"
  by (induction s) (auto split: list.splits)

lemma join_split_on:
  "concat (map (\<lambda>g. g @ [c]) (butlast (split_on c s))) @ last (split_on c s) = s"
proof (induction s)
  case Nil
  show ?case by simp
next
  case (Cons x s)
  obtain p ps where ps: "split_on c s = p # ps"
    using split_on_not_empty [of c s] by (cases "split_on c s") auto
  show ?case
  proof (cases "x = c")
    case True
    with Cons ps show ?thesis by simp
  next
    case False
    with Cons ps show ?thesis by (cases ps) simp_all
  qed
qed

lemma chars_of_split:
  assumes "x \<in> set s"
  shows "x = c \<or> (\<exists>p\<in>set (split_on c s). x \<in> set p)"
proof -
  have "x \<in> set (concat (map (\<lambda>g. g @ [c]) (butlast (split_on c s))) @ last (split_on c s))"
    using assms by (simp only: join_split_on)
  then have "x = c \<or> (\<exists>p\<in>set (butlast (split_on c s)). x \<in> set p) \<or> x \<in> set (last (split_on c s))"
    by (auto split: if_splits)
  moreover have "last (split_on c s) \<in> set (split_on c s)"
    using split_on_not_empty by simp
  ultimately show ?thesis by (blast dest: in_set_butlastD)
qed

section \<open>The patterns for dotted digits\<close>

lemma in_CatI: "u \<in> lang r \<Longrightarrow> v \<in> lang s \<Longrightarrow> u @ v \<in> lang (Cat r s)"
  by auto

lemma in_CatE: "w \<in> lang (Cat r s) \<Longrightarrow> \<exists>u v. w = u @ v \<and> u \<in> lang r \<and> v \<in> lang s"
  by auto

lemma in_cls_same: "in_cls [(a, a)] c \<longleftrightarrow> c = a"
proof -
  have "in_cls [(a, a)] c \<longleftrightarrow> (of_char a :: nat) = of_char c"
    by (auto simp: in_cls_def)
  then show ?thesis by auto
qed



lemma in_lit: "w \<in> lang (lit a) \<longleftrightarrow> w = [a]"
  unfolding lit_def lang.simps by (simp only: in_cls_same) auto


lemma digit_not_dot: "is_digit c \<Longrightarrow> c \<noteq> CHR ''.''"
  by (auto simp: is_digit_def in_cls_def)

lemma in_digits13: "w \<in> lang digits13 \<longleftrightarrow> 1 \<le> length w \<and> length w \<le> 3 \<and> (\<forall>c\<in>set w. is_digit c)"
  unfolding digits13_def digit_def is_digit_def
  using cls_rep_member [of w "[(CHR ''0'', CHR ''9'')]" 1 3] cls_rep_chars [of w "[(CHR ''0'', CHR ''9'')]" 1 3]
  by blast

lemma in_dot: "w \<in> lang dot \<longleftrightarrow> w = [CHR ''.'']"
  by (simp only: dot_def in_lit)

lemma in_digits13_dot: "w \<in> lang digits13_dot \<longleftrightarrow> (\<exists>g. w = g @ [CHR ''.''] \<and> g \<in> lang digits13)"
proof -
  have "w \<in> lang digits13_dot \<longleftrightarrow> (\<exists>u v. w = u @ v \<and> u \<in> lang digits13 \<and> v \<in> lang dot)"
    unfolding digits13_dot_def by auto
  then show ?thesis by (simp only: in_dot) blast
qed

lemma digit_groups_of_pieces:
  assumes xs: "\<forall>x\<in>set xs. x \<in> lang digits13_dot" and g: "g \<in> lang digits13"
  shows "digit_groups (concat xs @ g) \<and> length (split_on (CHR ''.'') (concat xs @ g)) = length xs + 1"
proof -
  let ?gs = "map butlast xs"
  have each: "\<forall>x\<in>set xs. x = butlast x @ [CHR ''.''] \<and> butlast x \<in> lang digits13"
    using xs by (auto simp: in_digits13_dot)
  then have "map (\<lambda>g. g @ [CHR ''.'']) ?gs = xs"
    by (induction xs) simp_all
  then have c: "concat xs = concat (map (\<lambda>g. g @ [CHR ''.'']) ?gs)" by simp
  have nodot: "\<forall>p\<in>set ?gs. CHR ''.'' \<notin> set p"
    using each by (auto simp: in_digits13 dest: digit_not_dot)
  have nodot': "CHR ''.'' \<notin> set g"
    using g by (auto simp: in_digits13 dest: digit_not_dot)
  have sp: "split_on (CHR ''.'') (concat xs @ g) = ?gs @ [g]"
    unfolding c by (rule split_on_groups [OF nodot nodot'])
  have "\<forall>p\<in>set (?gs @ [g]). 1 \<le> length p \<and> length p \<le> 3 \<and> list_all is_digit p"
    using each g by (auto simp: in_digits13 list_all_iff)
  then show ?thesis
    by (simp add: digit_groups_def sp list_all_iff)
qed




text \<open>
  However the four groups of \<^verbatim>\<open>ipv4Pattern\<close> are matched, they are the pieces of the
  host between the dots, as \<open>ipv4Match\<close> has them.
\<close>

lemma ipv4_groups_are_pieces:
  assumes "a \<in> lang digits13" "b \<in> lang digits13" "c \<in> lang digits13" "d \<in> lang digits13"
  shows "split_on (CHR ''.'') (a @ [CHR ''.''] @ b @ [CHR ''.''] @ c @ [CHR ''.''] @ d) = [a, b, c, d]"
proof -
  have nd: "CHR ''.'' \<notin> set g" if "g \<in> lang digits13" for g
    using that by (auto simp: in_digits13 dest: digit_not_dot)
  have "\<forall>g\<in>set [a, b, c]. CHR ''.'' \<notin> set g"
    using assms nd by simp
  from split_on_groups [OF this nd [OF assms(4)]] show ?thesis by simp
qed

section \<open>The hostname pattern\<close>










section \<open>The IPv6 pattern\<close>













section \<open>Properties of the validator\<close>

text \<open>The expectations of the repository's validators.test.ts hold of the model.\<close>

lemma validators_test_hosts:
  "isValidHost ''192.168.1.1'' \<and> isValidHost ''10.0.0.1'' \<and> isValidHost ''127.0.0.1'' \<and>
   isValidHost ''255.255.255.255'' \<and>
   \<not> isValidHost ''300.0.0.1'' \<and> \<not> isValidHost ''192.168.1'' \<and>
   \<not> isValidHost ''192.168.1.1.1'' \<and> \<not> isValidHost ''192.168.1.-1'' \<and>
   isValidHost ''localhost'' \<and> isValidHost ''example.com'' \<and> isValidHost ''sub.example.com'' \<and>
   isValidHost ''sub-domain.example.com'' \<and>
   \<not> isValidHost [] \<and> \<not> isValidHost ''example..com'' \<and> \<not> isValidHost ''-example.com'' \<and>
   \<not> isValidHost ''example-.com''"
  by code_simp

lemma validators_test_ports:
  "isValidPort (Integral 1) \<and> isValidPort (Integral 80) \<and> isValidPort (Integral 443) \<and>
   isValidPort (Integral 8080) \<and> isValidPort (Integral 65535) \<and>
   \<not> isValidPort (Integral 0) \<and> \<not> isValidPort (Integral (- 1)) \<and>
   \<not> isValidPort (Integral 65536) \<and> \<not> isValidPort NonIntegral"
  by (simp add: isValidPort_def)

lemma validators_test_connections:
  "validateConnection ''192.168.1.1'' (Integral 80) = \<lparr>isValid = True, v_error = None\<rparr> \<and>
   validateConnection ''example.com'' (Integral 443) = \<lparr>isValid = True, v_error = None\<rparr> \<and>
   validateConnection [] (Integral 80)
     = \<lparr>isValid = False, v_error = Some ''Host must be a non-empty string''\<rparr> \<and>
   validateConnection ''300.0.0.1'' (Integral 80)
     = \<lparr>isValid = False, v_error = Some ''Invalid hostname or IP address format''\<rparr> \<and>
   validateConnection ''example.com'' (Integral 0)
     = \<lparr>isValid = False, v_error = Some ''Port must be an integer between 1 and 65535''\<rparr> \<and>
   validateConnection ''example.com'' (Integral 65536)
     = \<lparr>isValid = False, v_error = Some ''Port must be an integer between 1 and 65535''\<rparr>"
  by code_simp

lemma digit_groups_chars:
  assumes "digit_groups w" and "x \<in> set w"
  shows "x = CHR ''.'' \<or> is_digit x"
proof -
  from chars_of_split [OF assms(2), of "CHR ''.''"]
  show ?thesis using assms(1) by (auto simp: digit_groups_def list_all_iff)
qed









lemma parseInt_digits:
  assumes "p \<noteq> []" and "list_all is_digit p"
  shows "parseInt p = Some (int (decimal_value p))"
proof -
  have tw: "takeWhile is_digit p = p" using assms(2) by (simp add: list_all_iff)
  show ?thesis unfolding parseInt_def Let_def tw using assms(1) by simp
qed


text \<open>
  On the strings made of dot-separated groups of one to three digits, the validator is
  the IPv4 rule: it accepts exactly four groups, each at most 255.
\<close>

lemma must_contain_sound: "must_contain c r \<Longrightarrow> w \<in> lang r \<Longrightarrow> c \<in> set w"
proof (induction r arbitrary: w)
  case (Cls rs)
  then show ?case by (auto simp: in_cls_same)
qed auto

lemma ipv6Regex_needs_colon: "must_contain (CHR '':'') ipv6Regex"
  by code_simp

lemma digit_groups_not_ipv6:
  assumes "digit_groups h"
  shows "\<not> matches ipv6Regex h"
proof
  assume "matches ipv6Regex h"
  then have "CHR '':'' \<in> set h"
    using must_contain_sound [OF ipv6Regex_needs_colon] by (simp only: matches_lang)
  from digit_groups_chars [OF assms this] show False
    by (simp add: is_digit_def in_cls_def)
qed

lemma ipv4Pattern_count:
  assumes "w \<in> lang ipv4Pattern"
  shows "length (split_on (CHR ''.'') w) = 4"
proof -
  have "w \<in> lang (Cat digits13_dot (Cat digits13_dot (Cat digits13_dot digits13)))"
    using assms by (simp add: ipv4Pattern_def digits13_dot_def) (metis append.assoc)
  then obtain x1 x2 x3 d where
    w: "w = x1 @ x2 @ x3 @ d"
    and g: "x1 \<in> lang digits13_dot" "x2 \<in> lang digits13_dot" "x3 \<in> lang digits13_dot" "d \<in> lang digits13"
    by (auto dest!: in_CatE)
  have "\<forall>x\<in>set [x1, x2, x3]. x \<in> lang digits13_dot"
    using g by simp
  from digit_groups_of_pieces [OF this g(4)] show ?thesis by (simp add: w)
qed

lemma digit_groups_pieces:
  assumes "digit_groups h"
  shows "\<forall>x\<in>set (map (\<lambda>g. g @ [CHR ''.'']) (butlast (split_on (CHR ''.'') h))). x \<in> lang digits13_dot"
    and "last (split_on (CHR ''.'') h) \<in> lang digits13"
proof -
  let ?parts = "split_on (CHR ''.'') h"
  have all: "\<forall>p\<in>set ?parts. p \<in> lang digits13"
    using assms by (simp add: digit_groups_def list_all_iff in_digits13)
  show "\<forall>x\<in>set (map (\<lambda>g. g @ [CHR ''.'']) (butlast ?parts)). x \<in> lang digits13_dot"
    using all by (auto simp: in_digits13_dot dest: in_set_butlastD)
  have "last ?parts \<in> set ?parts" using split_on_not_empty [of "CHR ''.''" h] by simp
  with all show "last ?parts \<in> lang digits13" by blast
qed

lemma digit_groups_incomplete:
  assumes "digit_groups h" and "length (split_on (CHR ''.'') h) < 4"
  shows "h \<in> lang incompleteIpv4"
proof -
  let ?xs = "map (\<lambda>g. g @ [CHR ''.'']) (butlast (split_on (CHR ''.'') h))"
  have "concat ?xs \<in> lang (rep digits13_dot 0 3)"
    using digit_groups_pieces(1) [OF assms(1)] assms(2) by (intro rep_concat) simp_all
  then have "concat ?xs @ last (split_on (CHR ''.'') h) \<in> lang (Cat (rep digits13_dot 0 3) digits13)"
    using digit_groups_pieces(2) [OF assms(1)] by (rule in_CatI)
  then show ?thesis unfolding incompleteIpv4_def seq.simps by (simp only: join_split_on)
qed

lemma digit_groups_too_many:
  assumes "digit_groups h" and "5 \<le> length (split_on (CHR ''.'') h)"
  shows "h \<in> lang tooManyOctets"
proof -
  let ?xs = "map (\<lambda>g. g @ [CHR ''.'']) (butlast (split_on (CHR ''.'') h))"
  have "concat ?xs \<in> lang (rep_min digits13_dot 4)"
    using digit_groups_pieces(1) [OF assms(1)] assms(2) by (intro rep_min_concat) simp_all
  then have "concat ?xs @ last (split_on (CHR ''.'') h) \<in> lang (Cat (rep_min digits13_dot 4) digits13)"
    using digit_groups_pieces(2) [OF assms(1)] by (rule in_CatI)
  then show ?thesis unfolding tooManyOctets_def seq.simps by (simp only: join_split_on)
qed

lemma digit_groups_ipv4Pattern:
  assumes "digit_groups h" and "length (split_on (CHR ''.'') h) = 4"
  shows "h \<in> lang ipv4Pattern"
proof -
  from assms(2) obtain a b c d where parts: "split_on (CHR ''.'') h = [a, b, c, d]"
    by (auto simp: length_Suc_conv numeral_eq_Suc)
  have g: "a \<in> lang digits13" "b \<in> lang digits13" "c \<in> lang digits13" "d \<in> lang digits13"
    using assms(1) by (simp_all add: digit_groups_def parts in_digits13 list_all_iff)
  have h: "h = a @ [CHR ''.''] @ b @ [CHR ''.''] @ c @ [CHR ''.''] @ d"
    using join_split_on [of "CHR ''.''" h] by (simp add: parts)
  have dot: "[CHR ''.''] \<in> lang dot" by (simp only: in_dot)
  have "a @ [CHR ''.''] @ b @ [CHR ''.''] @ c @ [CHR ''.''] @ d
          \<in> lang (Cat digits13 (Cat dot (Cat digits13 (Cat dot (Cat digits13 (Cat dot digits13))))))"
    by (intro in_CatI g dot)
  then show ?thesis unfolding ipv4Pattern_def seq.simps by (simp only: h [symmetric])
qed

lemma isValidHost_on_digit_groups:
  assumes "digit_groups h"
  shows "isValidHost h \<longleftrightarrow>
           length (split_on (CHR ''.'') h) = 4 \<and>
           list_all (\<lambda>p. decimal_value p \<le> 255) (split_on (CHR ''.'') h)"
proof -
  let ?parts = "split_on (CHR ''.'') h"
  have ne: "h \<noteq> []" using assms by (auto simp: digit_groups_def)
  have digits: "\<forall>p\<in>set ?parts. p \<noteq> [] \<and> list_all is_digit p"
    using assms by (auto simp: digit_groups_def list_all_iff)
  have no6: "\<not> matches ipv6Regex h" using assms by (rule digit_groups_not_ipv6)
  consider (four) "length ?parts = 4" | (few) "length ?parts < 4" | (many) "5 \<le> length ?parts"
    by linarith
  then show ?thesis
  proof cases
    case four
    then have m: "matches ipv4Pattern h"
      using assms by (simp only: matches_lang digit_groups_ipv4Pattern)
    from four obtain a b c d where parts: "?parts = [a, b, c, d]"
      by (auto simp: length_Suc_conv numeral_eq_Suc)
    have range: "octet_out_of_range p \<longleftrightarrow> \<not> decimal_value p \<le> 255" if "p \<in> set ?parts" for p
    proof -
      from that digits have "p \<noteq> []" "list_all is_digit p" by blast+
      from parseInt_digits [OF this] show ?thesis by (auto simp: octet_out_of_range_def)
    qed
    have "list_ex (\<lambda>i. octet_out_of_range ((h # ?parts) ! i)) [1, 2, 3, 4]
            \<longleftrightarrow> \<not> list_all (\<lambda>p. decimal_value p \<le> 255) ?parts"
      using range by (auto simp: parts)
    then show ?thesis using m ne four by (simp add: isValidHost_def ipv4Match_def)
  next
    case few
    then have "\<not> matches ipv4Pattern h"
      using ipv4Pattern_count [of h] by (auto simp: matches_lang)
    moreover have "matches incompleteIpv4 h"
      using assms few by (simp only: matches_lang digit_groups_incomplete)
    ultimately show ?thesis using ne no6 few by (simp add: isValidHost_def ipv4Match_def)
  next
    case many
    then have "\<not> matches ipv4Pattern h"
      using ipv4Pattern_count [of h] by (auto simp: matches_lang)
    moreover have "matches tooManyOctets h"
      using assms many by (simp only: matches_lang digit_groups_too_many)
    ultimately show ?thesis using ne no6 many by (simp add: isValidHost_def ipv4Match_def)
  qed
qed




text \<open>
  C6. The claim: a string of digits and dots is rejected when an octet exceeds 255 or the
  number of octets is not 4. The three IPv4 checks only recognise octets of one to three
  digits; "1000.1.1.1" (first octet 1000) and "1.2.3.4.5000" (five octets) pass all of
  them and are accepted by the hostname pattern.
\<close>

theorem isValidHost_accepts_long_octets:
  "split_on (CHR ''.'') ''1000.1.1.1'' = [''1000'', ''1'', ''1'', ''1''] \<and>
   list_all (list_all is_digit) (split_on (CHR ''.'') ''1000.1.1.1'') \<and>
   decimal_value ''1000'' = 1000 \<and>
   isValidHost ''1000.1.1.1'' \<and>
   split_on (CHR ''.'') ''1.2.3.4.5000'' = [''1'', ''2'', ''3'', ''4'', ''5000''] \<and>
   isValidHost ''1.2.3.4.5000''"
  by code_simp

end
